theory Spec2Isabelle
  imports Complex_Main
begin

section \<open>Data model of MarketTrendClient.tsx\<close>

text \<open>
  A JavaScript \<open>number\<close> as far as the component looks at it: the component only
  compares numbers with zero and tests them for truthiness, so a finite number is
  its real value (\<open>-0\<close> is \<open>0\<close>). \<open>NaN\<close> also stands for a value that is not there
  (\<open>undefined\<close>): both are falsy and both fail every comparison.
\<close>

datatype number = Num real | NaN

definition truthy :: "number \<Rightarrow> bool" where
  "truthy x = (case x of Num r \<Rightarrow> r \<noteq> 0 | NaN \<Rightarrow> False)"

definition gt0 :: "number \<Rightarrow> bool" where
  "gt0 x = (case x of Num r \<Rightarrow> 0 < r | NaN \<Rightarrow> False)"

definition lt0 :: "number \<Rightarrow> bool" where
  "lt0 x = (case x of Num r \<Rightarrow> r < 0 | NaN \<Rightarrow> False)"

definition eq0 :: "number \<Rightarrow> bool" where
  "eq0 x = (case x of Num r \<Rightarrow> r = 0 | NaN \<Rightarrow> False)"

text \<open>
  Modelled from the spec: the generated message types \<open>EStockInfo\<close>,
  \<open>DataStreamResponse\<close> and \<open>FilterRequest\<close> (./generated/datastream is not part of
  the sources). The fields are the ones the spec lists for an Instrument and a
  RecordBatch; \<open>resp_data\<close> is optional because the component tests it for presence.
\<close>

record EStockInfo =
  stock_code :: string
  stock_name :: string
  price :: number
  change :: number
  percentChange :: number
  totalVolume :: number
  stock_value :: number
  totalFreq :: number

record DataStreamResponse =
  resp_code :: int
  resp_data :: "EStockInfo list option"
  resp_message :: string

record FilterRequest =
  req_filter :: string
  req_sort :: string

type_synonym Date = nat

text \<open>What a finished call threw, as the \<open>catch\<close> clause reads it: \<open>err.name\<close> and
  \<open>err.message\<close> (which may be missing).\<close>

record jserror =
  err_name :: string
  err_message :: "string option"

text \<open>How the message sequence of a call ends: the loop runs out and \<open>call.status\<close>
  resolves, or an awaited step throws.\<close>

datatype outcome = Done | Threw jserror

datatype completion = Pending | Completed | Cancelled | Errored

text \<open>
  One invocation of \<open>connectToStream\<close> that got past the client check: the
  \<open>AbortController\<close> whose signal it handed to \<open>streamData\<close>, the request it sent, its
  local variable \<open>count\<close>, and where the \<open>async\<close> function stands (suspended in the
  loop, or left through one of the three exits).
\<close>

record call =
  signal :: nat
  request :: FilterRequest
  count :: nat
  status :: completion

text \<open>
  The component: its seven \<open>useState\<close> cells, its two refs, the heap of
  \<open>AbortController\<close> objects (the \<open>aborted\<close> flag of each, an object being its
  index), every timeout the restart effect has created (the request held by the
  closure of its callback while it is pending, \<open>None\<close> once it has been cleared or
  has fired; a timeout is its index), the timeout held by the cleanup of the latest
  run of that effect, and every call started so far.
\<close>

record component =
  stocks :: "EStockInfo list"
  isConnected :: bool
  error :: "string option"
  filter_st :: string
  sortBy :: string
  lastUpdate :: "Date option"
  messageCount :: nat
  abortControllerRef :: "nat option"
  clientRef :: "string option"
  controllers :: "bool list"
  timers :: "FilterRequest option list"
  effectTimer :: "nat option"
  calls :: "call list"

definition initial :: component where
  "initial = \<lparr>stocks = [], isConnected = False, error = None, filter_st = ''all'',
     sortBy = ''percent_change'', lastUpdate = None, messageCount = 0,
     abortControllerRef = None, clientRef = None, controllers = [], timers = [],
     effectTimer = None, calls = []\<rparr>"

section \<open>Operations\<close>

text \<open>\<open>connectToStream\<close>, up to its first suspension. \<open>req\<close> is the request built
  from the \<open>filter\<close> and \<open>sortBy\<close> of the closure that is called.\<close>

definition connectToStream :: "FilterRequest \<Rightarrow> component \<Rightarrow> component" where
  "connectToStream req s =
     (if clientRef s = None then s\<lparr>error := Some ''gRPC client not initialized''\<rparr>
      else
        let c = length (controllers s) in
        s\<lparr>isConnected := True, error := None, stocks := [], messageCount := 0,
          controllers := controllers s @ [False],
          abortControllerRef := Some c,
          calls := calls s @ [\<lparr>signal = c, request = req, count = 0, status = Pending\<rparr>]\<rparr>)"

definition current_request :: "component \<Rightarrow> FilterRequest" where
  "current_request s = \<lparr>req_filter = filter_st s, req_sort = sortBy s\<rparr>"

definition disconnect :: "component \<Rightarrow> component" where
  "disconnect s =
     (case abortControllerRef s of
        None \<Rightarrow> s
      | Some c \<Rightarrow> s\<lparr>controllers := (controllers s)[c := True]\<rparr>)"

text \<open>One turn of the \<open>for await\<close> loop of call \<open>i\<close>, for a response that arrives at
  time \<open>now\<close>.\<close>

definition receive :: "nat \<Rightarrow> DataStreamResponse \<Rightarrow> Date \<Rightarrow> component \<Rightarrow> component" where
  "receive i r now s =
     (if i < length (calls s) \<and> status (calls s ! i) = Pending then
        let t = calls s ! i;
            n = count t + 1;
            s1 = s\<lparr>calls := (calls s)[i := t\<lparr>count := n\<rparr>], messageCount := n\<rparr>
        in (case resp_data r of
              Some d \<Rightarrow> if resp_code r = 200 then s1\<lparr>stocks := d, lastUpdate := Some now\<rparr> else s1
            | None \<Rightarrow> s1)
      else s)"

definition errorMessage :: "jserror \<Rightarrow> string" where
  "errorMessage e =
     (case err_message e of
        None \<Rightarrow> ''An error occurred during streaming''
      | Some m \<Rightarrow> if m = [] then ''An error occurred during streaming'' else m)"

definition exit_of :: "outcome \<Rightarrow> completion" where
  "exit_of out =
     (case out of
        Done \<Rightarrow> Completed
      | Threw e \<Rightarrow> if err_name e = ''AbortError'' then Cancelled else Errored)"

text \<open>The end of call \<open>i\<close>: the code after the loop, the \<open>catch\<close> clause and the
  \<open>finally\<close> clause.\<close>

definition finish :: "nat \<Rightarrow> outcome \<Rightarrow> component \<Rightarrow> component" where
  "finish i out s =
     (if i < length (calls s) \<and> status (calls s ! i) = Pending then
        let s1 = (case out of
                    Done \<Rightarrow> s
                  | Threw e \<Rightarrow>
                      if err_name e = ''AbortError'' then s
                      else s\<lparr>error := Some (errorMessage e)\<rparr>)
        in s1\<lparr>isConnected := False, abortControllerRef := None,
              calls := (calls s)[i := (calls s ! i)\<lparr>status := exit_of out\<rparr>]\<rparr>
      else s)"

text \<open>\<open>setTimeout\<close> creates a timeout of its own on every call; only \<open>clearTimeout\<close>
  on that very timeout removes it.\<close>

definition setTimeout :: "FilterRequest \<Rightarrow> component \<Rightarrow> component" where
  "setTimeout req s = s\<lparr>timers := timers s @ [Some req]\<rparr>"

definition clearTimeout :: "nat \<Rightarrow> component \<Rightarrow> component" where
  "clearTimeout k s = s\<lparr>timers := (timers s)[k := None]\<rparr>"

text \<open>The effect with dependencies \<open>[filter, sortBy]\<close>: its cleanup, which clears
  the timeout its own run created, and its body.\<close>

definition effect_cleanup :: "component \<Rightarrow> component" where
  "effect_cleanup s =
     disconnect (case effectTimer s of None \<Rightarrow> s | Some k \<Rightarrow> clearTimeout k s)"

definition effect_body :: "component \<Rightarrow> component" where
  "effect_body s =
     (let s1 = (if isConnected s then disconnect s else s)
      in (setTimeout (current_request s) s1)\<lparr>effectTimer := Some (length (timers s1))\<rparr>)"

text \<open>The state setters an event handler calls before the component renders
  again.\<close>

datatype setter = SetFilter string | SetSortBy string

fun apply_setter :: "component \<Rightarrow> setter \<Rightarrow> component" where
  "apply_setter s (SetFilter v) = s\<lparr>filter_st := v\<rparr>"
| "apply_setter s (SetSortBy v) = s\<lparr>sortBy := v\<rparr>"

fun apply_setters :: "component \<Rightarrow> setter list \<Rightarrow> component" where
  "apply_setters s [] = s"
| "apply_setters s (c # cs) = apply_setters (apply_setter s c) cs"

text \<open>Whether the render after the setter calls \<open>cs\<close> finds a dependency of the
  effect changed.\<close>

definition rerenders :: "component \<Rightarrow> setter list \<Rightarrow> bool" where
  "rerenders s cs \<longleftrightarrow>
     filter_st (apply_setters s cs) \<noteq> filter_st s \<or> sortBy (apply_setters s cs) \<noteq> sortBy s"

text \<open>One handler run and the render that follows it: the setter calls are batched,
  and the effect runs again (cleanup first) only when \<open>filter\<close> or \<open>sortBy\<close> now
  differs from the last render.\<close>

definition tick :: "setter list \<Rightarrow> component \<Rightarrow> component" where
  "tick cs s =
     (if rerenders s cs then effect_body (effect_cleanup (apply_setters s cs)) else s)"

text \<open>Timeout \<open>k\<close> elapses: its callback calls \<open>connectToStream\<close>. A timeout that was
  cleared, or has fired, does nothing.\<close>

definition timerFire :: "nat \<Rightarrow> component \<Rightarrow> component" where
  "timerFire k s =
     (if k < length (timers s) then
        (case timers s ! k of
           None \<Rightarrow> s
         | Some req \<Rightarrow> connectToStream req (clearTimeout k s))
      else s)"

text \<open>The button: \<open>onClick={isConnected ? disconnect : connectToStream}\<close>.\<close>

definition click :: "component \<Rightarrow> component" where
  "click s = (if isConnected s then disconnect s else connectToStream (current_request s) s)"

text \<open>The first render followed by both effects: the client is created for
  \<open>envoyUrl\<close> and the restart effect schedules the first connect.\<close>

definition mounted :: "string \<Rightarrow> component" where
  "mounted envoyUrl = effect_body (initial\<lparr>clientRef := Some envoyUrl\<rparr>)"

text \<open>Everything that can happen to a mounted component: a click on the button, a
  handler that calls state setters, a timeout of the restart effect, a response or
  the end of the message sequence of call \<open>i\<close>; and, for the spec's \<open>connect()\<close> and
  \<open>disconnect()\<close>, a direct call of \<open>connectToStream\<close> or \<open>disconnect\<close>, which the
  component itself only makes through the button, the timeouts and the effect.
  State updates are taken to be rendered before the next event, and \<open>streamData\<close>
  to report every failure through the sequence it returns. An event that cannot
  occur in a state (a timeout that is not pending, a message for a call that has
  ended) leaves the state as it is.\<close>

datatype event =
    Connect
  | Disconnect
  | Click
  | Tick "setter list"
  | TimerFire nat
  | Receive nat DataStreamResponse Date
  | Finish nat outcome

fun step :: "component \<Rightarrow> event \<Rightarrow> component" where
  "step s Connect = connectToStream (current_request s) s"
| "step s Disconnect = disconnect s"
| "step s Click = click s"
| "step s (Tick cs) = tick cs s"
| "step s (TimerFire k) = timerFire k s"
| "step s (Receive i r now) = receive i r now s"
| "step s (Finish i out) = finish i out s"

fun run :: "component \<Rightarrow> event list \<Rightarrow> component" where
  "run s [] = s"
| "run s (e # es) = run (step s e) es"

text \<open>The states a run passes through, the first one included.\<close>

fun trace :: "component \<Rightarrow> event list \<Rightarrow> component list" where
  "trace s [] = [s]"
| "trace s (e # es) = s # trace (step s e) es"

text \<open>The calls that are still suspended in their loop.\<close>

definition pendings :: "component \<Rightarrow> nat list" where
  "pendings s = filter (\<lambda>j. status (calls s ! j) = Pending) [0..<length (calls s)]"

text \<open>What the presentation layer reads: the instrument list and the connection
  state.\<close>

definition observable ::
  "component \<Rightarrow> EStockInfo list \<times> bool \<times> string option \<times> Date option \<times> nat" where
  "observable s = (stocks s, isConnected s, error s, lastUpdate s, messageCount s)"

text \<open>The \<open>stats\<close> object computed on every render.\<close>

record statistics =
  total :: nat
  gainers :: nat
  losers :: nat
  unchanged :: nat

definition stats :: "EStockInfo list \<Rightarrow> statistics" where
  "stats xs =
     \<lparr>total = length xs,
      gainers = length (filter (\<lambda>s. truthy (change s) \<and> gt0 (change s)) xs),
      losers = length (filter (\<lambda>s. truthy (change s) \<and> lt0 (change s)) xs),
      unchanged = length (filter (\<lambda>s. eq0 (change s)) xs)\<rparr>"

text \<open>The timeouts that are pending.\<close>

definition pending_timers :: "component \<Rightarrow> nat list" where
  "pending_timers s = filter (\<lambda>k. timers s ! k \<noteq> None) [0..<length (timers s)]"

text \<open>The events of call \<open>i\<close> receiving one success batch after the other: each
  with its payload, its message string and its time of arrival.\<close>

definition deliver :: "nat \<Rightarrow> (EStockInfo list \<times> string \<times> Date) list \<Rightarrow> event list" where
  "deliver i bs =
     map (\<lambda>(d, m, now). Receive i \<lparr>resp_code = 200, resp_data = Some d, resp_message = m\<rparr> now) bs"

text \<open>Some handler run of the sequence makes the effect run again.\<close>

fun restarts :: "component \<Rightarrow> setter list list \<Rightarrow> bool" where
  "restarts s [] = False"
| "restarts s (cs # ts) = (rerenders s cs \<or> restarts (tick cs s) ts)"

text \<open>The parameters in force after a sequence of setter calls, as the spec words it:
  each call overrides the parameter it sets.\<close>

fun last_set :: "FilterRequest \<Rightarrow> setter list \<Rightarrow> FilterRequest" where
  "last_set p [] = p"
| "last_set p (SetFilter v # cs) = last_set (p\<lparr>req_filter := v\<rparr>) cs"
| "last_set p (SetSortBy v # cs) = last_set (p\<lparr>req_sort := v\<rparr>) cs"

text \<open>What holds of the timeouts and the refs in every state the mounted component
  reaches: the client exists, the controller reference points into the heap, and
  no timeout is pending but the one the cleanup of the effect holds.\<close>

definition tidy :: "component \<Rightarrow> bool" where
  "tidy s \<longleftrightarrow>
     clientRef s \<noteq> None
     \<and> (\<forall>c. abortControllerRef s = Some c \<longrightarrow> c < length (controllers s))
     \<and> (\<exists>k. effectTimer s = Some k \<and> k < length (timers s)
          \<and> (\<forall>j<length (timers s). timers s ! j \<noteq> None \<longrightarrow> j = k))"

text \<open>One timeout is pending: the one the cleanup of the effect holds, set for the
  current parameters.\<close>

definition armed :: "component \<Rightarrow> bool" where
  "armed s \<longleftrightarrow>
     (\<exists>k. effectTimer s = Some k \<and> pending_timers s = [k]
        \<and> timers s ! k = Some (current_request s))"

text \<open>The controller reference, when set, holds the controller of a call that is
  still pending.\<close>

definition ref_live :: "component \<Rightarrow> bool" where
  "ref_live s \<longleftrightarrow>
     (\<forall>c. abortControllerRef s = Some c \<longrightarrow>
        (\<exists>i<length (calls s). status (calls s ! i) = Pending \<and> signal (calls s ! i) = c))"

section \<open>Sample inputs\<close>

definition envoy :: string where "envoy = ''http://localhost:8080''"

text \<open>The component after its first timeout has connected.\<close>

definition streaming :: component where
  "streaming = run (mounted envoy) [TimerFire 0]"

definition abortError :: jserror where
  "abortError = \<lparr>err_name = ''AbortError'', err_message = Some ''The user aborted a request.''\<rparr>"

text \<open>What the imported \<open>GrpcWebFetchTransport\<close> rejects an aborted call with: an
  \<open>RpcError\<close> of code \<open>CANCELLED\<close> that carries the message of the abort.\<close>

definition rpcCancelled :: jserror where
  "rpcCancelled = \<lparr>err_name = ''RpcError'', err_message = Some ''The user aborted a request.''\<rparr>"

definition bbca :: EStockInfo where
  "bbca = \<lparr>stock_code = ''BBCA'', stock_name = ''Bank Central Asia'', price = Num 9000,
     change = Num 50, percentChange = Num 0.56, totalVolume = Num 1200, stock_value = Num 10800000,
     totalFreq = Num 35\<rparr>"

definition tlkm :: EStockInfo where
  "tlkm = \<lparr>stock_code = ''TLKM'', stock_name = ''Telkom Indonesia'', price = Num 3100,
     change = Num (- 20), percentChange = Num (- 0.64), totalVolume = Num 800,
     stock_value = Num 2480000, totalFreq = Num 12\<rparr>"

definition batch :: "EStockInfo list \<Rightarrow> DataStreamResponse" where
  "batch d = \<lparr>resp_code = 200, resp_data = Some d, resp_message = ''success''\<rparr>"

definition anomaly :: DataStreamResponse where
  "anomaly = \<lparr>resp_code = 500, resp_data = None, resp_message = ''internal error''\<rparr>"

text \<open>The button was clicked right after mounting and the first batch has arrived;
  the timeout created on mounting is still pending.\<close>

definition displaying :: component where
  "displaying = run (mounted envoy) [Click, Receive 0 (batch [bbca, tlkm]) 7]"

text \<open>The button was clicked right after mounting, the timeout created on mounting
  has elapsed, and the first call has received two batches.\<close>

definition doubled :: component where
  "doubled = run (mounted envoy)
     [Click, TimerFire 0, Receive 0 (batch [bbca]) 1, Receive 0 (batch [bbca, tlkm]) 2]"

section \<open>Aggregates\<close>

lemma truthy_gt0: "(truthy x \<and> gt0 x) = gt0 x"
  by (cases x) (auto simp: truthy_def gt0_def)

lemma truthy_lt0: "(truthy x \<and> lt0 x) = lt0 x"
  by (cases x) (auto simp: truthy_def lt0_def)

text \<open>
  C9. For every displayed instrument list, \<open>total\<close> is its length, \<open>gainers\<close> the
  number of instruments whose change is positive, \<open>losers\<close> the number whose change
  is negative, and \<open>unchanged\<close> the number whose change is zero. The truthiness
  guard of the source removes nothing a comparison would keep.
\<close>

theorem stats_counts:
  "total (stats xs) = length xs
   \<and> gainers (stats xs) = card {i. i < length xs \<and> (\<exists>r. change (xs ! i) = Num r \<and> 0 < r)}
   \<and> losers (stats xs) = card {i. i < length xs \<and> (\<exists>r. change (xs ! i) = Num r \<and> r < 0)}
   \<and> unchanged (stats xs) = card {i. i < length xs \<and> change (xs ! i) = Num 0}"
proof -
  have g: "gt0 x = (\<exists>r. x = Num r \<and> 0 < r)" for x
    by (cases x) (auto simp: gt0_def)
  have l: "lt0 x = (\<exists>r. x = Num r \<and> r < 0)" for x
    by (cases x) (auto simp: lt0_def)
  have z: "eq0 x = (x = Num 0)" for x
    by (cases x) (auto simp: eq0_def)
  have "gainers (stats xs) = length (filter (\<lambda>s. gt0 (change s)) xs)"
    by (simp add: stats_def truthy_gt0)
  moreover have "losers (stats xs) = length (filter (\<lambda>s. lt0 (change s)) xs)"
    by (simp add: stats_def truthy_lt0)
  moreover have "unchanged (stats xs) = length (filter (\<lambda>s. eq0 (change s)) xs)"
    by (simp add: stats_def)
  moreover have "total (stats xs) = length xs"
    by (simp add: stats_def)
  ultimately show ?thesis
    by (simp add: length_filter_conv_card g l z)
qed

section \<open>Evaluation\<close>

lemmas ops = mounted_def initial_def effect_body_def effect_cleanup_def current_request_def
  connectToStream_def disconnect_def receive_def finish_def timerFire_def click_def
  setTimeout_def clearTimeout_def tick_def rerenders_def exit_of_def errorMessage_def
  pendings_def pending_timers_def observable_def Let_def

section \<open>What the setters and the effect leave alone\<close>

lemma apply_setter_frame:
  "stocks (apply_setter s c) = stocks s" "isConnected (apply_setter s c) = isConnected s"
  "error (apply_setter s c) = error s" "lastUpdate (apply_setter s c) = lastUpdate s"
  "messageCount (apply_setter s c) = messageCount s"
  "abortControllerRef (apply_setter s c) = abortControllerRef s"
  "clientRef (apply_setter s c) = clientRef s" "controllers (apply_setter s c) = controllers s"
  "timers (apply_setter s c) = timers s" "effectTimer (apply_setter s c) = effectTimer s"
  "calls (apply_setter s c) = calls s"
  by (cases c; simp)+

lemma apply_setters_frame:
  "stocks (apply_setters s cs) = stocks s" "isConnected (apply_setters s cs) = isConnected s"
  "error (apply_setters s cs) = error s" "lastUpdate (apply_setters s cs) = lastUpdate s"
  "messageCount (apply_setters s cs) = messageCount s"
  "abortControllerRef (apply_setters s cs) = abortControllerRef s"
  "clientRef (apply_setters s cs) = clientRef s" "controllers (apply_setters s cs) = controllers s"
  "timers (apply_setters s cs) = timers s" "effectTimer (apply_setters s cs) = effectTimer s"
  "calls (apply_setters s cs) = calls s"
  by (induction s cs rule: apply_setters.induct; simp add: apply_setter_frame)+

lemma disconnect_frame_fields:
  "stocks (disconnect s) = stocks s" "isConnected (disconnect s) = isConnected s"
  "error (disconnect s) = error s" "lastUpdate (disconnect s) = lastUpdate s"
  "messageCount (disconnect s) = messageCount s"
  "abortControllerRef (disconnect s) = abortControllerRef s"
  "clientRef (disconnect s) = clientRef s" "timers (disconnect s) = timers s"
  "effectTimer (disconnect s) = effectTimer s" "calls (disconnect s) = calls s"
  "filter_st (disconnect s) = filter_st s" "sortBy (disconnect s) = sortBy s"
  "length (controllers (disconnect s)) = length (controllers s)"
  by (simp_all add: disconnect_def split: option.split)

lemma tick_frame:
  "stocks (tick cs s) = stocks s" "isConnected (tick cs s) = isConnected s"
  "error (tick cs s) = error s" "lastUpdate (tick cs s) = lastUpdate s"
  "messageCount (tick cs s) = messageCount s"
  "abortControllerRef (tick cs s) = abortControllerRef s"
  "clientRef (tick cs s) = clientRef s" "calls (tick cs s) = calls s"
  "length (controllers (tick cs s)) = length (controllers s)"
  by (simp_all add: tick_def effect_body_def effect_cleanup_def setTimeout_def clearTimeout_def
      disconnect_frame_fields apply_setters_frame Let_def split: option.split)

section \<open>disconnect\<close>

lemma disconnect_observable: "observable (disconnect s) = observable s"
  by (simp add: disconnect_def observable_def split: option.split)

lemma pendings_Nil_iff: "pendings s = [] \<longleftrightarrow> (\<forall>j<length (calls s). status (calls s ! j) \<noteq> Pending)"
  by (auto simp: pendings_def filter_empty_conv)

lemma ref_pending_step:
  assumes "abortControllerRef s \<noteq> None \<longrightarrow> pendings s \<noteq> []"
  shows "abortControllerRef (step s e) \<noteq> None \<longrightarrow> pendings (step s e) \<noteq> []"
proof (cases e)
  case (Tick cs)
  with assms show ?thesis
    by (simp add: tick_frame pendings_def)
qed (use assms in \<open>auto simp: connectToStream_def disconnect_def receive_def finish_def
      timerFire_def clearTimeout_def click_def pendings_Nil_iff nth_append nth_list_update Let_def
      split: if_splits option.splits\<close>)

lemma ref_pending_run:
  "abortControllerRef s \<noteq> None \<longrightarrow> pendings s \<noteq> [] \<Longrightarrow>
   abortControllerRef (run s es) \<noteq> None \<longrightarrow> pendings (run s es) \<noteq> []"
proof (induction es arbitrary: s)
  case Nil
  then show ?case by simp
next
  case (Cons e es)
  from Cons.prems have "abortControllerRef (step s e) \<noteq> None \<longrightarrow> pendings (step s e) \<noteq> []"
    by (rule ref_pending_step)
  then show ?case using Cons.IH by simp
qed

lemma mounted_ref: "abortControllerRef (mounted u) = None"
  by (simp add: ops)

text \<open>
  C8. \<open>disconnect\<close> is idempotent: a second call changes nothing, observable or
  not. It does nothing at all when the controller reference is empty, which is the
  case in every state the mounted component reaches with no call pending. It never
  touches the instrument list, \<open>messageCount\<close>, \<open>lastUpdate\<close> or the derived
  statistics.
\<close>

theorem disconnect_idempotent:
  "disconnect (disconnect s) = disconnect s
   \<and> observable (disconnect (disconnect s)) = observable (disconnect s)
   \<and> (abortControllerRef s = None \<longrightarrow> disconnect s = s)
   \<and> (pendings (run (mounted u) es) = [] \<longrightarrow> disconnect (run (mounted u) es) = run (mounted u) es)
   \<and> stocks (disconnect s) = stocks s
   \<and> messageCount (disconnect s) = messageCount s
   \<and> lastUpdate (disconnect s) = lastUpdate s
   \<and> stats (stocks (disconnect s)) = stats (stocks s)"
proof -
  have idem: "disconnect (disconnect s) = disconnect s"
    by (simp add: disconnect_def split: option.split)
  have idle: "abortControllerRef s = None \<longrightarrow> disconnect s = s"
    by (simp add: disconnect_def)
  have "abortControllerRef (run (mounted u) es) \<noteq> None \<longrightarrow> pendings (run (mounted u) es) \<noteq> []"
    by (rule ref_pending_run) (simp add: mounted_ref)
  then have reach: "pendings (run (mounted u) es) = [] \<longrightarrow>
      disconnect (run (mounted u) es) = run (mounted u) es"
    by (auto simp: disconnect_def)
  have keep: "stocks (disconnect s) = stocks s" "messageCount (disconnect s) = messageCount s"
    "lastUpdate (disconnect s) = lastUpdate s"
    by (simp_all add: disconnect_def split: option.split)
  show ?thesis
    using idem idle reach keep by simp
qed

theorem disconnect_idempotent_witness:
  "abortControllerRef (mounted envoy) = None
   \<and> disconnect (mounted envoy) = mounted envoy
   \<and> pendings (run (mounted envoy) [TimerFire 0, Finish 0 Done]) = []
   \<and> disconnect (run (mounted envoy) [TimerFire 0, Finish 0 Done])
       = run (mounted envoy) [TimerFire 0, Finish 0 Done]
   \<and> abortControllerRef streaming = Some 0
   \<and> disconnect (disconnect streaming) = disconnect streaming
   \<and> stocks (disconnect streaming) = stocks streaming
   \<and> messageCount (disconnect streaming) = messageCount streaming"
proof -
  have a: "abortControllerRef (mounted envoy) = None"
    by (simp add: ops)
  have b: "pendings (run (mounted envoy) [TimerFire 0, Finish 0 Done]) = []"
    by (simp add: ops)
  have c: "abortControllerRef streaming = Some 0"
    by (simp add: streaming_def ops)
  show ?thesis
    using disconnect_idempotent [of "mounted envoy" envoy "[TimerFire 0, Finish 0 Done]"]
      disconnect_idempotent [of streaming envoy "[]"] a b c
    by simp
qed

text \<open>
  C10. \<open>disconnect\<close> changes none of \<open>isConnected\<close>, \<open>error\<close>, \<open>messageCount\<close>,
  \<open>lastUpdate\<close> and the instrument list. The only event that takes \<open>isConnected\<close>
  from true to false is the end of a pending call, whose \<open>finally\<close> clause does it.
\<close>

theorem disconnect_frame:
  "isConnected (disconnect s) = isConnected s
   \<and> error (disconnect s) = error s
   \<and> messageCount (disconnect s) = messageCount s
   \<and> lastUpdate (disconnect s) = lastUpdate s
   \<and> stocks (disconnect s) = stocks s
   \<and> (\<forall>e. isConnected s \<and> \<not> isConnected (step s e) \<longrightarrow>
         (\<exists>i out. e = Finish i out \<and> i < length (calls s) \<and> status (calls s ! i) = Pending))"
proof -
  have frame: "isConnected (disconnect s) = isConnected s" "error (disconnect s) = error s"
    "messageCount (disconnect s) = messageCount s" "lastUpdate (disconnect s) = lastUpdate s"
    "stocks (disconnect s) = stocks s" for s
    by (simp_all add: disconnect_def split: option.split)
  have only: "\<exists>i out. e = Finish i out \<and> i < length (calls s) \<and> status (calls s ! i) = Pending"
    if "isConnected s" and "\<not> isConnected (step s e)" for e
  proof (cases e)
    case (Finish i out)
    with that show ?thesis
      by (auto simp: finish_def split: if_splits)
  next
    case (Receive i r now)
    with that show ?thesis
      by (auto simp: receive_def Let_def split: if_splits option.splits)
  next
    case (Tick cs)
    with that show ?thesis
      by (simp add: tick_frame)
  qed (use that frame in \<open>auto simp: connectToStream_def timerFire_def clearTimeout_def
        click_def Let_def split: if_splits option.splits\<close>)
  show ?thesis
    using frame only by blast
qed

theorem disconnect_frame_witness:
  "isConnected streaming
   \<and> isConnected (disconnect streaming)
   \<and> error (disconnect streaming) = error streaming
   \<and> messageCount (disconnect streaming) = messageCount streaming
   \<and> \<not> isConnected (step (disconnect streaming) (Finish 0 (Threw abortError)))
   \<and> (\<exists>i out. Finish 0 (Threw abortError) = Finish i out
         \<and> i < length (calls (disconnect streaming))
         \<and> status (calls (disconnect streaming) ! i) = Pending)"
proof -
  have a: "isConnected streaming"
    by (simp add: streaming_def ops)
  have b: "\<not> isConnected (step (disconnect streaming) (Finish 0 (Threw abortError)))"
    by (simp add: streaming_def ops)
  have c: "isConnected (disconnect streaming)" "error (disconnect streaming) = error streaming"
    "messageCount (disconnect streaming) = messageCount streaming"
    using disconnect_frame [of streaming] a by simp_all
  have "isConnected (disconnect streaming)
      \<and> \<not> isConnected (step (disconnect streaming) (Finish 0 (Threw abortError)))
    \<longrightarrow> (\<exists>i out. Finish 0 (Threw abortError) = Finish i out
         \<and> i < length (calls (disconnect streaming))
         \<and> status (calls (disconnect streaming) ! i) = Pending)"
    using disconnect_frame [of "disconnect streaming"] by blast
  with b c have "\<exists>i out. Finish 0 (Threw abortError) = Finish i out
         \<and> i < length (calls (disconnect streaming))
         \<and> status (calls (disconnect streaming) ! i) = Pending"
    by blast
  with a b c show ?thesis
    by blast
qed

section \<open>Order of the batches\<close>

lemma trace_deliver:
  "i < length (calls s) \<Longrightarrow> status (calls s ! i) = Pending \<Longrightarrow>
   map stocks (trace s (deliver i bs)) = stocks s # map fst bs"
proof (induction bs arbitrary: s)
  case Nil
  then show ?case by (simp add: deliver_def)
next
  case (Cons b bs)
  obtain d m now where b: "b = (d, m, now)"
    by (cases b) auto
  let ?s = "receive i \<lparr>resp_code = 200, resp_data = Some d, resp_message = m\<rparr> now s"
  from Cons.prems have "i < length (calls ?s)" and "status (calls ?s ! i) = Pending"
    and "stocks ?s = d"
    by (simp_all add: receive_def Let_def)
  with Cons.IH [of ?s] have "map stocks (trace ?s (deliver i bs)) = d # map fst bs"
    by simp
  then show ?case
    using b by (simp add: deliver_def)
qed

text \<open>
  C5. A call opened by \<open>connectToStream\<close> that receives success batches one after
  the other shows exactly: the empty list, then each payload in the order of
  arrival, every batch replacing the one before. In particular three batches
  \<open>B1\<close>, \<open>B2\<close>, \<open>B3\<close> give the four states \<open>[]\<close>, \<open>B1\<close>, \<open>B2\<close>, \<open>B3\<close>.
\<close>

theorem batches_in_order:
  assumes "clientRef s \<noteq> None"
  shows "map stocks (trace (connectToStream req s) (deliver (length (calls s)) bs)) = [] # map fst bs"
proof -
  let ?s = "connectToStream req s"
  from assms have "length (calls s) < length (calls ?s)"
    and "status (calls ?s ! length (calls s)) = Pending" and "stocks ?s = []"
    by (auto simp: connectToStream_def Let_def)
  then show ?thesis
    using trace_deliver [of "length (calls s)" ?s bs] by simp
qed


theorem batches_in_order_witness:
  "clientRef (mounted envoy) \<noteq> None
   \<and> length (calls (mounted envoy)) = 0
   \<and> map stocks (trace (connectToStream (current_request (mounted envoy)) (mounted envoy))
        (deliver 0 [([bbca], ''first'', 1), ([bbca, tlkm], ''second'', 2), ([tlkm], ''third'', 3)]))
       = [[], [bbca], [bbca, tlkm], [tlkm]]"
proof -
  have a: "clientRef (mounted envoy) \<noteq> None" and b: "length (calls (mounted envoy)) = 0"
    by (simp_all add: ops)
  show ?thesis
    using batches_in_order [OF a, of "current_request (mounted envoy)"
        "[([bbca], ''first'', 1), ([bbca, tlkm], ''second'', 2), ([tlkm], ''third'', 3)]"] a b
    by simp
qed

section \<open>One turn of the loop, and the end of a call\<close>

lemma receive_effect:
  assumes "i < length (calls s)" and "status (calls s ! i) = Pending"
  shows "count (calls (receive i r now s) ! i) = count (calls s ! i) + 1
    \<and> messageCount (receive i r now s) = count (calls s ! i) + 1
    \<and> (\<forall>d. resp_code r = 200 \<and> resp_data r = Some d \<longrightarrow>
         stocks (receive i r now s) = d \<and> lastUpdate (receive i r now s) = Some now)
    \<and> (resp_code r \<noteq> 200 \<or> resp_data r = None \<longrightarrow>
         stocks (receive i r now s) = stocks s \<and> lastUpdate (receive i r now s) = lastUpdate s)
    \<and> status (calls (receive i r now s) ! i) = Pending
    \<and> isConnected (receive i r now s) = isConnected s
    \<and> error (receive i r now s) = error s"
  using assms by (auto simp: receive_def Let_def split: option.split)

lemma finish_effect:
  assumes "i < length (calls s)" and "status (calls s ! i) = Pending"
  shows "isConnected (finish i out s) = False
    \<and> abortControllerRef (finish i out s) = None
    \<and> status (calls (finish i out s) ! i) \<noteq> Pending
    \<and> (out = Done \<longrightarrow> error (finish i out s) = error s)
    \<and> (\<forall>e. out = Threw e \<and> err_name e = ''AbortError'' \<longrightarrow> error (finish i out s) = error s)
    \<and> (\<forall>e. out = Threw e \<and> err_name e \<noteq> ''AbortError'' \<longrightarrow>
          error (finish i out s) = Some (errorMessage e) \<and> errorMessage e \<noteq> [])"
  using assms
  by (cases out) (auto simp: finish_def exit_of_def errorMessage_def split: option.split)

section \<open>Two calls pending at the same time\<close>

text \<open>
  C1. The component is mounted, the button is clicked before the first timeout
  elapses, then the timeout elapses: two calls are pending, the first is not
  aborted, and the controller reference only knows the second.
\<close>

theorem two_calls_pending:
  "pendings (run (mounted envoy) [Click, TimerFire 0]) = [0, 1]
   \<and> controllers (run (mounted envoy) [Click, TimerFire 0]) = [False, False]
   \<and> abortControllerRef (run (mounted envoy) [Click, TimerFire 0]) = Some 1"
  by (simp add: ops)

text \<open>
  C2. The button was clicked right after mounting, call 0 is pending and its
  first batch is displayed. The timeout created on mounting then elapses and calls
  \<open>connectToStream\<close>, which is not a no-op: a second call is opened, the first is not
  aborted, the instrument list is emptied and \<open>messageCount\<close> is back to 0.
\<close>

theorem timeout_connects_while_active:
  "isConnected displaying \<and> pendings displaying = [0] \<and> pending_timers displaying = [0]
   \<and> messageCount displaying = 1 \<and> stocks displaying = [bbca, tlkm]
   \<and> pendings (step displaying (TimerFire 0)) = [0, 1]
   \<and> controllers (step displaying (TimerFire 0)) = [False, False]
   \<and> messageCount (step displaying (TimerFire 0)) = 0
   \<and> stocks (step displaying (TimerFire 0)) = []"
  by (simp add: displaying_def batch_def ops)

text \<open>
  C4. With the two calls of C1 pending and \<open>messageCount\<close> at 2, a batch received
  by the call the controller reference holds does not increment \<open>messageCount\<close>: it
  sets it to that call's own count, 1. The same happens when the first call has
  ended and the second is the only one pending.
\<close>

theorem batch_not_counted:
  "pendings doubled = [0, 1] \<and> abortControllerRef doubled = Some (signal (calls doubled ! 1))
   \<and> messageCount doubled = 2
   \<and> messageCount (step doubled (Receive 1 (batch [tlkm]) 3)) = 1
   \<and> messageCount (run doubled [Finish 0 Done, Receive 1 (batch [tlkm]) 3]) = 1"
  by (simp add: doubled_def batch_def ops)

text \<open>
  C6. Along the run that opens the two calls of C1 and delivers two batches to the
  first and one to the second, \<open>messageCount\<close> takes the values 0, 0, 0, 1, 2, 1: it
  drops from 2 to 1 while calls are pending and no connect happens.
\<close>

theorem messageCount_drops:
  "map messageCount (trace (mounted envoy)
     [Click, TimerFire 0, Receive 0 (batch [bbca]) 1, Receive 0 (batch [bbca, tlkm]) 2,
      Receive 1 (batch [tlkm]) 3])
   = [0, 0, 0, 1, 2, 1]"
  by (simp add: batch_def ops)

section \<open>Cancellation\<close>

text \<open>
  C3. The component has connected and the button is clicked: the controller of
  call 0 is aborted, and \<open>error\<close> is still empty. The transport ends the aborted
  call with an \<open>RpcError\<close>; its name is not \<open>AbortError\<close>, so the \<open>catch\<close> clause
  stores its message in \<open>error\<close>.
\<close>

theorem cancel_sets_error:
  "isConnected streaming \<and> pendings streaming = [0]
   \<and> controllers (step streaming Click) ! signal (calls (step streaming Click) ! 0)
   \<and> error (step streaming Click) = None
   \<and> error (run streaming [Click, Finish 0 (Threw rpcCancelled)])
       = Some ''The user aborted a request.''"
  by (simp add: streaming_def rpcCancelled_def ops)

section \<open>Restart on a change of parameters\<close>

lemma last_set_append: "last_set p (cs @ ds) = last_set (last_set p cs) ds"
  by (induction p cs rule: last_set.induct) simp_all

lemma current_request_setters:
  "current_request (apply_setters s cs) = last_set (current_request s) cs"
proof (induction s cs rule: apply_setters.induct)
  case (1 s)
  then show ?case by simp
next
  case (2 s c cs)
  then show ?case
    by (cases c) (simp_all add: current_request_def)
qed

lemma not_rerenders:
  assumes "\<not> rerenders s cs"
  shows "tick cs s = s" and "last_set (current_request s) cs = current_request s"
proof -
  show "tick cs s = s"
    using assms by (simp add: tick_def)
  have "current_request (apply_setters s cs) = current_request s"
    using assms by (simp add: rerenders_def current_request_def)
  then show "last_set (current_request s) cs = current_request s"
    by (simp add: current_request_setters)
qed

lemma tick_request: "current_request (tick cs s) = last_set (current_request s) cs"
proof (cases "rerenders s cs")
  case True
  have "current_request (effect_body (effect_cleanup s')) = current_request s'" for s'
    by (simp add: current_request_def effect_body_def effect_cleanup_def setTimeout_def
        clearTimeout_def disconnect_frame_fields Let_def split: option.split)
  with True show ?thesis
    by (simp add: tick_def current_request_setters)
next
  case False
  then show ?thesis
    by (simp add: not_rerenders)
qed

lemma pending_last:
  assumes "\<forall>j<length ts. ts ! j = None"
  shows "filter (\<lambda>j. (ts @ [Some r]) ! j \<noteq> None) [0..<Suc (length ts)] = [length ts]"
proof -
  have "filter (\<lambda>j. (ts @ [Some r]) ! j \<noteq> None) [0..<length ts] = []"
    using assms by (simp add: filter_empty_conv nth_append)
  then show ?thesis by simp
qed

lemma cleanup_request: "current_request (effect_cleanup s) = current_request s"
  by (simp add: current_request_def effect_cleanup_def clearTimeout_def disconnect_frame_fields
      split: option.split)

lemma tick_timers:
  assumes "rerenders s cs" and "effectTimer s = Some k"
  shows "timers (tick cs s) = (timers s)[k := None] @ [Some (last_set (current_request s) cs)]"
    and "effectTimer (tick cs s) = Some (length (timers s))"
proof -
  let ?s1 = "apply_setters s cs"
  have c: "timers (effect_cleanup ?s1) = (timers s)[k := None]"
    using assms(2)
    by (simp add: effect_cleanup_def clearTimeout_def disconnect_frame_fields apply_setters_frame)
  have b: "timers (effect_body s') = timers s' @ [Some (current_request s')]"
    "effectTimer (effect_body s') = Some (length (timers s'))" for s'
    by (simp_all add: effect_body_def setTimeout_def disconnect_frame_fields Let_def)
  show "timers (tick cs s) = (timers s)[k := None] @ [Some (last_set (current_request s) cs)]"
    using assms(1) b(1) [of "effect_cleanup ?s1"] c
    by (simp add: tick_def cleanup_request current_request_setters)
  show "effectTimer (tick cs s) = Some (length (timers s))"
    using assms(1) b(2) [of "effect_cleanup ?s1"] c
    by (simp add: tick_def)
qed

lemma tick_aborts:
  assumes "rerenders s cs" and "abortControllerRef s = Some c" and "c < length (controllers s)"
  shows "controllers (tick cs s) ! c"
  using assms
  by (simp add: tick_def effect_body_def effect_cleanup_def setTimeout_def clearTimeout_def
      disconnect_def apply_setters_frame Let_def split: option.split)


lemma tick_arms:
  assumes "tidy s" and "rerenders s cs"
  shows "armed (tick cs s)"
proof -
  from assms(1) obtain k where k: "effectTimer s = Some k" "k < length (timers s)"
    and only: "\<forall>j<length (timers s). timers s ! j \<noteq> None \<longrightarrow> j = k"
    by (auto simp: tidy_def)
  let ?ts = "(timers s)[k := None]"
  have none: "\<forall>j<length ?ts. ?ts ! j = None"
    using only k(2) by (auto simp: nth_list_update)
  have t: "timers (tick cs s) = ?ts @ [Some (last_set (current_request s) cs)]"
    and e: "effectTimer (tick cs s) = Some (length (timers s))"
    using tick_timers [OF assms(2) k(1)] by simp_all
  have "pending_timers (tick cs s) = [length (timers s)]"
    using pending_last [OF none, of "last_set (current_request s) cs"] t
    by (simp add: pending_timers_def)
  moreover have "timers (tick cs s) ! length (timers s) = Some (current_request (tick cs s))"
    using t by (simp add: tick_request nth_append)
  ultimately show ?thesis
    using e by (simp add: armed_def)
qed

lemma tidy_tick:
  assumes "tidy s"
  shows "tidy (tick cs s)"
proof (cases "rerenders s cs")
  case True
  from assms obtain k where k: "effectTimer s = Some k" "k < length (timers s)"
    and only: "\<forall>j<length (timers s). timers s ! j \<noteq> None \<longrightarrow> j = k"
    by (auto simp: tidy_def)
  have t: "timers (tick cs s) = (timers s)[k := None] @ [Some (last_set (current_request s) cs)]"
    and e: "effectTimer (tick cs s) = Some (length (timers s))"
    using tick_timers [OF True k(1)] by simp_all
  have "\<forall>j<length (timers (tick cs s)). timers (tick cs s) ! j \<noteq> None \<longrightarrow> j = length (timers s)"
    using only t k(2) by (auto simp: nth_append nth_list_update split: if_splits)
  with assms e t show ?thesis
    by (simp add: tidy_def tick_frame)
next
  case False
  with assms show ?thesis by (simp add: not_rerenders)
qed

lemma tidy_connect:
  assumes "tidy s"
  shows "tidy (connectToStream req s)"
proof -
  from assms have "clientRef s \<noteq> None"
    by (simp add: tidy_def)
  then have "timers (connectToStream req s) = timers s"
    "effectTimer (connectToStream req s) = effectTimer s"
    "clientRef (connectToStream req s) = clientRef s"
    "abortControllerRef (connectToStream req s) = Some (length (controllers s))"
    "length (controllers (connectToStream req s)) = Suc (length (controllers s))"
    by (auto simp: connectToStream_def Let_def)
  with assms show ?thesis
    by (simp add: tidy_def)
qed

lemma tidy_clearTimeout:
  assumes "tidy s"
  shows "tidy (clearTimeout k s)"
proof -
  from assms obtain m where m: "effectTimer s = Some m" "m < length (timers s)"
    and only: "\<forall>j<length (timers s). timers s ! j \<noteq> None \<longrightarrow> j = m"
    by (auto simp: tidy_def)
  have "(timers s)[k := None] ! j \<noteq> None \<longrightarrow> j = m" if "j < length (timers s)" for j
  proof (cases "j = k")
    case True
    with that show ?thesis by simp
  next
    case False
    then have "(timers s)[k := None] ! j = timers s ! j" by simp
    with only that show ?thesis by metis
  qed
  then have "\<forall>j<length (timers (clearTimeout k s)).
      timers (clearTimeout k s) ! j \<noteq> None \<longrightarrow> j = m"
    by (simp add: clearTimeout_def)
  moreover have "effectTimer (clearTimeout k s) = Some m" "m < length (timers (clearTimeout k s))"
    "clientRef (clearTimeout k s) = clientRef s"
    "abortControllerRef (clearTimeout k s) = abortControllerRef s"
    "controllers (clearTimeout k s) = controllers s"
    using m by (simp_all add: clearTimeout_def)
  ultimately show ?thesis
    using assms unfolding tidy_def by metis
qed

lemma tidy_disconnect:
  assumes "tidy s"
  shows "tidy (disconnect s)"
  using assms by (simp add: tidy_def disconnect_frame_fields)

lemma tidy_timerFire:
  assumes "tidy s"
  shows "tidy (timerFire k s)"
proof (cases "k < length (timers s) \<and> timers s ! k \<noteq> None")
  case True
  then obtain req where r: "timers s ! k = Some req" by auto
  have "tidy (clearTimeout k s)"
    using assms by (rule tidy_clearTimeout)
  then have "tidy (connectToStream req (clearTimeout k s))"
    by (rule tidy_connect)
  with True r show ?thesis by (simp add: timerFire_def)
next
  case False
  then have "timerFire k s = s"
    by (auto simp: timerFire_def)
  with assms show ?thesis by simp
qed

lemma tidy_step:
  assumes "tidy s"
  shows "tidy (step s e)"
proof (cases e)
  case Connect
  with assms show ?thesis by (simp add: tidy_connect)
next
  case Disconnect
  with assms show ?thesis by (simp add: tidy_disconnect)
next
  case Click
  with assms show ?thesis by (simp add: click_def tidy_connect tidy_disconnect)
next
  case (Tick cs)
  with assms show ?thesis by (simp add: tidy_tick)
next
  case (TimerFire k)
  with assms show ?thesis by (simp add: tidy_timerFire)
next
  case (Receive i r now)
  have "clientRef (receive i r now s) = clientRef s"
    "abortControllerRef (receive i r now s) = abortControllerRef s"
    "controllers (receive i r now s) = controllers s"
    "timers (receive i r now s) = timers s" "effectTimer (receive i r now s) = effectTimer s"
    by (simp_all add: receive_def Let_def split: option.split)
  with assms Receive show ?thesis
    by (simp add: tidy_def)
next
  case (Finish i out)
  have "clientRef (finish i out s) = clientRef s"
    "abortControllerRef (finish i out s) = None \<or> finish i out s = s"
    "timers (finish i out s) = timers s" "effectTimer (finish i out s) = effectTimer s"
    by (simp_all add: finish_def Let_def split: outcome.split)
  with assms Finish show ?thesis
    by (auto simp: tidy_def)
qed

lemma tidy_run: "tidy s \<Longrightarrow> tidy (run s es)"
  by (induction es arbitrary: s) (simp_all add: tidy_step)

lemma tidy_mounted: "tidy (mounted u)"
  by (simp add: tidy_def ops)

lemma ticks_arm:
  assumes "tidy s" and "abortControllerRef s = Some c"
    and "armed s \<and> controllers s ! c \<or> restarts s ts"
  shows "armed (run s (map Tick ts)) \<and> controllers (run s (map Tick ts)) ! c
    \<and> tidy (run s (map Tick ts))
    \<and> calls (run s (map Tick ts)) = calls s
    \<and> length (controllers (run s (map Tick ts))) = length (controllers s)
    \<and> current_request (run s (map Tick ts)) = last_set (current_request s) (concat ts)"
  using assms
proof (induction ts arbitrary: s)
  case Nil
  then show ?case by simp
next
  case (Cons cs ts)
  from Cons.prems(1,2) have c: "c < length (controllers s)"
    by (simp add: tidy_def)
  have t: "tidy (tick cs s)" and r: "abortControllerRef (tick cs s) = Some c"
    using Cons.prems(1,2) by (simp_all add: tidy_tick tick_frame)
  have "armed (tick cs s) \<and> controllers (tick cs s) ! c \<or> restarts (tick cs s) ts"
  proof (cases "rerenders s cs")
    case True
    with Cons.prems(1,2) c show ?thesis
      by (simp add: tick_arms tick_aborts)
  next
    case False
    with Cons.prems(3) show ?thesis
      by (simp add: not_rerenders)
  qed
  from Cons.IH [OF t r this] show ?case
    by (simp add: tick_frame tick_request last_set_append)
qed

lemma mem_pending_timers:
  "j \<in> set (pending_timers s) \<longleftrightarrow> j < length (timers s) \<and> timers s ! j \<noteq> None"
  by (auto simp: pending_timers_def)

lemma armed_fires:
  assumes "armed s" and "clientRef s \<noteq> None" and "pending_timers s = [k]"
  shows "calls (timerFire k s) = calls s @
      [\<lparr>signal = length (controllers s), request = current_request s, count = 0,
        status = Pending\<rparr>]"
    and "pending_timers (timerFire k s) = []"
    and "\<forall>j. j \<noteq> k \<longrightarrow> timerFire j s = s"
proof -
  from assms(1,3) have k: "timers s ! k = Some (current_request s)"
    by (auto simp: armed_def)
  have "k \<in> set (pending_timers s)"
    using assms(3) by simp
  then have kl: "k < length (timers s)"
    by (simp add: mem_pending_timers)
  have others: "timers s ! j = None" if "j < length (timers s)" and "j \<noteq> k" for j
  proof (rule ccontr)
    assume "timers s ! j \<noteq> None"
    with that(1) have "j \<in> set (pending_timers s)"
      by (simp add: mem_pending_timers)
    with assms(3) that(2) show False by simp
  qed
  have fired: "timerFire k s = connectToStream (current_request s) (clearTimeout k s)"
    using k kl by (simp add: timerFire_def)
  have c: "clientRef (clearTimeout k s) \<noteq> None"
    using assms(2) by (simp add: clearTimeout_def)
  show "calls (timerFire k s) = calls s @
      [\<lparr>signal = length (controllers s), request = current_request s, count = 0,
        status = Pending\<rparr>]"
    using c by (simp add: fired connectToStream_def clearTimeout_def Let_def)
  have z: "(timers s)[k := None] ! j = None" if "j < length (timers s)" for j
    using that others [of j] by (cases "j = k") simp_all
  have t: "timers (timerFire k s) = (timers s)[k := None]"
    using c by (simp add: fired connectToStream_def clearTimeout_def Let_def)
  show "pending_timers (timerFire k s) = []"
    using z by (simp add: pending_timers_def t filter_empty_conv)
  show "\<forall>j. j \<noteq> k \<longrightarrow> timerFire j s = s"
    using others by (simp add: timerFire_def)
qed

lemma run_append: "run s (es @ fs) = run (run s es) fs"
  by (induction es arbitrary: s) simp_all

lemma ref_live_cong:
  assumes "ref_live s" and "calls s' = calls s" and "abortControllerRef s' = abortControllerRef s"
  shows "ref_live s'"
  using assms by (simp add: ref_live_def)

lemma ref_live_connect:
  assumes "ref_live s"
  shows "ref_live (connectToStream req s)"
proof (cases "clientRef s = None")
  case True
  then have "calls (connectToStream req s) = calls s"
    "abortControllerRef (connectToStream req s) = abortControllerRef s"
    by (simp_all add: connectToStream_def)
  with assms show ?thesis by (rule ref_live_cong)
next
  case False
  let ?s = "connectToStream req s"
  from False have "abortControllerRef ?s = Some (length (controllers s))"
    and "length (calls s) < length (calls ?s)"
    and "status (calls ?s ! length (calls s)) = Pending"
    and "signal (calls ?s ! length (calls s)) = length (controllers s)"
    by (auto simp: connectToStream_def Let_def)
  then show ?thesis
    unfolding ref_live_def by (metis option.inject)
qed

lemma ref_live_receive:
  assumes "ref_live s"
  shows "ref_live (receive i r now s)"
proof -
  have a: "abortControllerRef (receive i r now s) = abortControllerRef s"
    and l: "length (calls (receive i r now s)) = length (calls s)"
    by (simp_all add: receive_def Let_def split: option.split)
  have "status (calls (receive i r now s) ! j) = status (calls s ! j)
      \<and> signal (calls (receive i r now s) ! j) = signal (calls s ! j)" if "j < length (calls s)" for j
    using that by (cases "j = i") (simp_all add: receive_def Let_def split: option.split)
  with assms a l show ?thesis
    unfolding ref_live_def by metis
qed

lemma ref_live_finish:
  assumes "ref_live s"
  shows "ref_live (finish i out s)"
proof (cases "i < length (calls s) \<and> status (calls s ! i) = Pending")
  case True
  then have "abortControllerRef (finish i out s) = None"
    by (simp add: finish_def Let_def split: outcome.split)
  then show ?thesis by (simp add: ref_live_def)
next
  case False
  then have "finish i out s = s" by (auto simp: finish_def)
  with assms show ?thesis by simp
qed

lemma ref_live_step:
  assumes "ref_live s"
  shows "ref_live (step s e)"
proof (cases e)
  case Connect
  with assms show ?thesis by (simp add: ref_live_connect)
next
  case Disconnect
  with assms show ?thesis
    using ref_live_cong [of s "disconnect s"] by (simp add: disconnect_frame_fields)
next
  case Click
  with assms show ?thesis
    using ref_live_cong [of s "disconnect s"]
    by (simp add: click_def disconnect_frame_fields ref_live_connect)
next
  case (Tick cs)
  with assms show ?thesis
    using ref_live_cong [of s "tick cs s"] by (simp add: tick_frame)
next
  case (TimerFire k)
  have "ref_live (clearTimeout k s)"
    using assms ref_live_cong [of s "clearTimeout k s"] by (simp add: clearTimeout_def)
  then have "ref_live (connectToStream req (clearTimeout k s))" for req
    by (rule ref_live_connect)
  with assms TimerFire show ?thesis
    by (simp add: timerFire_def split: option.split)
next
  case (Receive i r now)
  with assms show ?thesis by (simp add: ref_live_receive)
next
  case (Finish i out)
  with assms show ?thesis by (simp add: ref_live_finish)
qed

lemma ref_live_run: "ref_live s \<Longrightarrow> ref_live (run s es)"
  by (induction es arbitrary: s) (simp_all add: ref_live_step)

lemma ref_live_mounted: "ref_live (mounted u)"
  by (simp add: ref_live_def ops)

lemma mem_pendings: "i \<in> set (pendings s) \<longleftrightarrow> i < length (calls s) \<and> status (calls s ! i) = Pending"
  by (auto simp: pendings_def)

text \<open>
  C7. In any state the mounted component reaches with a call active (the
  controller reference holds the controller \<open>c\<close> of a pending call), let handlers
  call the state setters, three times or any number of times, in one handler run or
  in several, with no timeout elapsing in between, and let at least one handler run
  change \<open>filter\<close> or \<open>sortBy\<close> as rendered. Then the setter calls open no call and
  abort controller \<open>c\<close>; afterwards exactly one timeout is pending, every earlier
  one having been cleared; when it elapses exactly one call is opened, with the
  parameters set last, and no timeout is pending any more.
\<close>

theorem restart_coalesced:
  assumes "s = run (mounted u) es" and "abortControllerRef s = Some c" and "restarts s ts"
  shows "(\<exists>i\<in>set (pendings s). signal (calls s ! i) = c)
    \<and> (\<exists>k. pending_timers (run s (map Tick ts)) = [k]
      \<and> calls (run s (map Tick ts)) = calls s
      \<and> controllers (run s (map Tick ts)) ! c
      \<and> calls (run s (map Tick ts @ [TimerFire k])) = calls s @
          [\<lparr>signal = length (controllers s), request = last_set (current_request s) (concat ts),
            count = 0, status = Pending\<rparr>]
      \<and> pending_timers (run s (map Tick ts @ [TimerFire k])) = []
      \<and> (\<forall>j. j \<noteq> k \<longrightarrow> step (run s (map Tick ts)) (TimerFire j) = run s (map Tick ts)))"
proof -
  let ?s = "run s (map Tick ts)"
  have "ref_live s"
    using assms(1) by (simp add: ref_live_run ref_live_mounted)
  with assms(2) have active: "\<exists>i\<in>set (pendings s). signal (calls s ! i) = c"
    by (auto simp: ref_live_def mem_pendings)
  have "tidy s"
    using assms(1) by (simp add: tidy_run tidy_mounted)
  from ticks_arm [OF this assms(2)] assms(3)
  have a: "armed ?s" and b: "controllers ?s ! c" and t: "tidy ?s" and c: "calls ?s = calls s"
    and l: "length (controllers ?s) = length (controllers s)"
    and r: "current_request ?s = last_set (current_request s) (concat ts)"
    by simp_all
  from a obtain k where k: "pending_timers ?s = [k]"
    by (auto simp: armed_def)
  from t have "clientRef ?s \<noteq> None"
    by (simp add: tidy_def)
  from armed_fires [OF a this k] b c l r k have "pending_timers ?s = [k]
      \<and> calls ?s = calls s \<and> controllers ?s ! c
      \<and> calls (run s (map Tick ts @ [TimerFire k])) = calls s @
          [\<lparr>signal = length (controllers s), request = last_set (current_request s) (concat ts),
            count = 0, status = Pending\<rparr>]
      \<and> pending_timers (run s (map Tick ts @ [TimerFire k])) = []
      \<and> (\<forall>j. j \<noteq> k \<longrightarrow> step ?s (TimerFire j) = ?s)"
    by (simp add: run_append)
  with active show ?thesis by blast
qed

theorem restart_coalesced_witness:
  "abortControllerRef streaming = Some 0
   \<and> restarts streaming [[SetFilter ''idx30''], [SetSortBy ''price''], [SetFilter ''lq45'']]
   \<and> pendings streaming = [0]
   \<and> signal (calls streaming ! 0) = 0
   \<and> pending_timers (run streaming
        [Tick [SetFilter ''idx30''], Tick [SetSortBy ''price''], Tick [SetFilter ''lq45'']]) = [3]
   \<and> controllers (run streaming
        [Tick [SetFilter ''idx30''], Tick [SetSortBy ''price''], Tick [SetFilter ''lq45'']]) ! 0
   \<and> calls (run streaming
        [Tick [SetFilter ''idx30''], Tick [SetSortBy ''price''], Tick [SetFilter ''lq45''],
         TimerFire 3])
       = calls streaming @
         [\<lparr>signal = 1, request = \<lparr>req_filter = ''lq45'', req_sort = ''price''\<rparr>, count = 0,
           status = Pending\<rparr>]
   \<and> pending_timers (run streaming
        [Tick [SetFilter ''idx30''], Tick [SetSortBy ''price''], Tick [SetFilter ''lq45''],
         TimerFire 3]) = []"
proof -
  let ?ts = "[[SetFilter ''idx30''], [SetSortBy ''price''], [SetFilter ''lq45'']]"
  have s: "streaming = run (mounted envoy) [TimerFire 0]"
    by (simp add: streaming_def)
  have a: "abortControllerRef streaming = Some 0"
    by (simp add: streaming_def ops)
  have b: "restarts streaming ?ts"
    by (simp add: streaming_def ops)
  have c: "pendings streaming = [0]" "signal (calls streaming ! 0) = 0"
    "length (controllers streaming) = 1"
    "last_set (current_request streaming) (concat ?ts)
      = \<lparr>req_filter = ''lq45'', req_sort = ''price''\<rparr>"
    by (simp_all add: streaming_def ops)
  have d: "pending_timers (run streaming (map Tick ?ts)) = [3]"
    by (simp add: streaming_def ops)
  from restart_coalesced [OF s a b] d
  have "calls (run streaming (map Tick ?ts)) = calls streaming
      \<and> controllers (run streaming (map Tick ?ts)) ! 0
      \<and> calls (run streaming (map Tick ?ts @ [TimerFire 3])) = calls streaming @
          [\<lparr>signal = length (controllers streaming),
            request = last_set (current_request streaming) (concat ?ts),
            count = 0, status = Pending\<rparr>]
      \<and> pending_timers (run streaming (map Tick ?ts @ [TimerFire 3])) = []"
    by auto
  with a b c d show ?thesis
    by simp
qed

end
